theory Spec2Isabelle
  imports Main
begin

section \<open>MTGTop8 URL scraper: data model\<close>

text \<open>
  The scraper keeps its data in Python dictionaries with fixed keys; each kind of dictionary
  is a record here, with the dictionary's keys as fields. Python's integers are unbounded,
  so counters are \<open>int\<close>.

  An event link is the dictionary \<^verbatim>\<open>{'name': event_text, 'url': event_url}\<close> built by
  \<^verbatim>\<open>get_event_links_from_current_page\<close>.
\<close>

record EventLink =
  name :: string
  url :: string

section \<open>Deduplication of the collected event links\<close>

text \<open>
  The loop of \<^verbatim>\<open>scrape_from_url\<close> that removes duplicates:
  \<^verbatim>\<open>
  unique_events = []
  seen_urls = set()
  for i, event in enumerate(all_event_links):
      if event['url'] not in seen_urls:
          unique_events.append(event)
          seen_urls.add(event['url'])
  \<close>
  The two mutable variables are the accumulators of the recursion. (The progress message the
  loop logs every 1000 entries changes neither.)
\<close>

fun dedup_loop :: "EventLink list \<Rightarrow> EventLink list \<Rightarrow> string set \<Rightarrow> EventLink list" where
  "dedup_loop [] unique_events seen_urls = unique_events"
| "dedup_loop (event # rest) unique_events seen_urls =
     (if url event \<notin> seen_urls
      then dedup_loop rest (unique_events @ [event]) (insert (url event) seen_urls)
      else dedup_loop rest unique_events seen_urls)"

definition deduplicate :: "EventLink list \<Rightarrow> EventLink list" where
  "deduplicate all_event_links = dedup_loop all_event_links [] {}"

text \<open>
  The specification's wording of the result: the entries of the input at the positions of
  first occurrence of their url, in input order.
\<close>

definition first_occurrences_spec :: "EventLink list \<Rightarrow> EventLink list" where
  "first_occurrences_spec xs =
     map (\<lambda>i. xs ! i)
       (filter (\<lambda>i. url (xs ! i) \<notin> url ` set (take i xs)) [0..<length xs])"

definition example_links :: "EventLink list" where
  "example_links =
     [\<lparr>name = ''GP Paris'', url = ''event?e=1''\<rparr>,
      \<lparr>name = ''MTGO Challenge'', url = ''event?e=2''\<rparr>,
      \<lparr>name = ''GP Paris (again)'', url = ''event?e=1''\<rparr>]"

section \<open>Python string operations used by the scraper\<close>

text \<open>
  A \<open>char\<close> stands for a code point below 256. \<^verbatim>\<open>str.strip()\<close> removes the characters for
  which \<^verbatim>\<open>str.isspace()\<close> holds from both ends; below 256 these are the twelve listed.
  \<^verbatim>\<open>str.lower()\<close> maps A-Z and the upper-case letters of Latin-1 to their lower case.
  \<^verbatim>\<open>sub in s\<close> is the substring test.
\<close>

definition py_isspace :: "char \<Rightarrow> bool" where
  "py_isspace c =
     (c \<in> set [CHR 0x09, CHR 0x0A, CHR 0x0B, CHR 0x0C, CHR 0x0D, CHR 0x1C, CHR 0x1D,
                CHR 0x1E, CHR 0x1F, CHR 0x20, CHR 0x85, CHR 0xA0])"

definition py_strip :: "string \<Rightarrow> string" where
  "py_strip s = rev (dropWhile py_isspace (rev (dropWhile py_isspace s)))"

definition py_lower_char :: "char \<Rightarrow> char" where
  "py_lower_char c =
     (let n = (of_char c :: nat)
      in if (65 \<le> n \<and> n \<le> 90) \<or> (192 \<le> n \<and> n \<le> 214) \<or> (216 \<le> n \<and> n \<le> 222)
         then char_of (n + 32) else c)"

definition py_lower :: "string \<Rightarrow> string" where
  "py_lower s = map py_lower_char s"

fun py_in :: "string \<Rightarrow> string \<Rightarrow> bool" where
  "py_in sub [] = (sub = [])"
| "py_in sub (c # cs) = (take (length sub) (c # cs) = sub \<or> py_in sub cs)"

text \<open>\<^verbatim>\<open>x or ""\<close> for an attribute value that may be \<^verbatim>\<open>None\<close>.\<close>

definition or_empty :: "string option \<Rightarrow> string" where
  "or_empty v = (case v of None \<Rightarrow> [] | Some s \<Rightarrow> s)"

text \<open>Python's truth value of an attribute value: \<^verbatim>\<open>None\<close> and \<^verbatim>\<open>''\<close> are false.\<close>

definition truthy :: "string option \<Rightarrow> bool" where
  "truthy v = (case v of None \<Rightarrow> False | Some s \<Rightarrow> s \<noteq> [])"

section \<open>The browser session as the scraper sees it\<close>

text \<open>
  Every call on the Selenium driver or on one of its elements may raise. The scraper only
  ever catches \<^verbatim>\<open>Exception\<close> as a whole, so one fault value stands for all of them, and a
  call's answer is a value of \<open>fault + 'a\<close>. A page is static between two navigations: the
  same call on the same object gives the same answer.

  An anchor element carries what the scraper reads from it: \<^verbatim>\<open>.text\<close>,
  \<^verbatim>\<open>.get_attribute('href')\<close>, \<^verbatim>\<open>.get_attribute('class')\<close>, \<^verbatim>\<open>.is_enabled()\<close>; what the
  selector engine sees of it: the \<^verbatim>\<open>href\<close> attribute as written in the page (tested by
  \<^verbatim>\<open>a[href*='...']\<close> and by XPath \<^verbatim>\<open>@href\<close>) and the string value of its first text node
  (XPath \<^verbatim>\<open>text()\<close>, empty when there is none); and where a click on it leads: a fault, or
  the number of the page the browser shows afterwards.
\<close>

datatype fault = WebDriverFault

record element =
  el_text :: "fault + string"
  el_href :: "fault + string option"
  el_class :: "fault + string option"
  el_enabled :: "fault + bool"
  dom_href :: "string option"
  dom_text :: string
  el_click :: "fault + nat"

text \<open>
  A container (a \<^verbatim>\<open>table.Stable\<close>, a \<^verbatim>\<open>div.Nav_norm\<close>) answers a search for anchors inside
  it with a fault or with its anchors in document order, and has a rendered text.
\<close>

record container =
  inner_anchors :: "fault + element list"
  inner_text :: "fault + string"

text \<open>
  A document answers the calls the scraper makes on the driver while the page is shown:
  the scroll script, the searches for \<^verbatim>\<open>table.Stable\<close>, for \<^verbatim>\<open>div.Nav_norm\<close>, for all
  tables and for anchors (the anchors of the whole document, from which a selector picks),
  and the properties \<^verbatim>\<open>page_source\<close>, \<^verbatim>\<open>current_url\<close> and \<^verbatim>\<open>title\<close>.
\<close>

record document =
  scroll_script :: "fault + unit"
  stable_tables :: "fault + container list"
  all_tables :: "fault + container list"
  nav_divs :: "fault + container list"
  anchors :: "fault + element list"
  page_source :: "fault + string"
  current_url :: "fault + string"
  title :: "fault + string"

text \<open>
  The site: \<^verbatim>\<open>driver.get(url)\<close> faults or shows a page; pages are numbered, so that a site
  may lead back to a page already seen.
\<close>

record site =
  driver_get :: "string \<Rightarrow> fault + nat"
  page :: "nat \<Rightarrow> document"

text \<open>The CSS selector \<^verbatim>\<open>a[href*='pat']\<close> on a list of anchors.\<close>

definition href_contains :: "string \<Rightarrow> element \<Rightarrow> bool" where
  "href_contains pat e = (case dom_href e of None \<Rightarrow> False | Some h \<Rightarrow> py_in pat h)"

definition find_elements_css :: "string \<Rightarrow> fault + element list \<Rightarrow> fault + element list" where
  "find_elements_css pat found =
     (case found of Inl f \<Rightarrow> Inl f | Inr els \<Rightarrow> Inr (filter (href_contains pat) els))"

section \<open>Event links of the current page\<close>

text \<open>
  The body of the loop over \<^verbatim>\<open>event_elements\<close> in \<^verbatim>\<open>get_event_links_from_current_page\<close>.
  A fault on one of the three reads is caught inside the loop (\<^verbatim>\<open>except: continue\<close>); the
  counter \<^verbatim>\<open>filtered_count\<close> is only logged.
\<close>

definition event_link_step :: "element \<Rightarrow> EventLink list \<Rightarrow> EventLink list" where
  "event_link_step element event_links =
     (case el_text element of Inl _ \<Rightarrow> event_links | Inr t \<Rightarrow>
     (case el_href element of Inl _ \<Rightarrow> event_links | Inr event_url \<Rightarrow>
     (case el_class element of Inl _ \<Rightarrow> event_links | Inr c \<Rightarrow>
        (let event_text = py_strip t; element_class = or_empty c
         in if event_text = [] \<or> \<not> truthy event_url then event_links
            else if py_in ''und'' element_class then event_links
            else if py_in ''league'' (py_lower event_text) then event_links
            else event_links @ [\<lparr>name = event_text, url = or_empty event_url\<rparr>]))))"

text \<open>
  \<^verbatim>\<open>get_event_links_from_current_page\<close>: scroll, find the \<^verbatim>\<open>table.Stable\<close> elements, give
  up with the empty list when there are fewer than two, search the second one for event
  anchors, search the first one too (for the log), then run the loop. A fault outside the
  loop is caught by the outer handler, which returns the empty list.
\<close>

definition get_event_links_from_current_page :: "document \<Rightarrow> EventLink list" where
  "get_event_links_from_current_page doc =
     (case scroll_script doc of Inl _ \<Rightarrow> [] | Inr _ \<Rightarrow>
     (case stable_tables doc of Inl _ \<Rightarrow> [] | Inr tables \<Rightarrow>
        if length tables < 2 then []
        else
          (case find_elements_css ''event?e='' (inner_anchors (tables ! 1)) of Inl _ \<Rightarrow> []
           | Inr event_elements \<Rightarrow>
          (case find_elements_css ''event?e='' (inner_anchors (tables ! 0)) of Inl _ \<Rightarrow> []
           | Inr first_table_events \<Rightarrow>
             foldl (\<lambda>event_links element. event_link_step element event_links) []
               event_elements))))"

text \<open>
  What the loop does with one candidate, as a test: the candidate is dropped when one of
  its three reads faults, when its stripped text is empty or its address is missing or
  empty, when \<^verbatim>\<open>'und' in element_class\<close> holds, or when its stripped text in lower case
  contains \<^verbatim>\<open>league\<close>. \<open>link_of\<close> is the event link of a candidate that is kept.
\<close>

definition candidate_excluded :: "element \<Rightarrow> bool" where
  "candidate_excluded e =
     (case el_text e of Inl _ \<Rightarrow> True | Inr t \<Rightarrow>
     (case el_href e of Inl _ \<Rightarrow> True | Inr h \<Rightarrow>
     (case el_class e of Inl _ \<Rightarrow> True | Inr c \<Rightarrow>
        (py_strip t = [] \<or> h = None \<or> h = Some [])
        \<or> py_in ''und'' (or_empty c)
        \<or> py_in ''league'' (py_lower (py_strip t)))))"

definition link_of :: "element \<Rightarrow> EventLink" where
  "link_of e =
     \<lparr>name = (case el_text e of Inl _ \<Rightarrow> [] | Inr t \<Rightarrow> py_strip t),
      url = (case el_href e of Inl _ \<Rightarrow> [] | Inr h \<Rightarrow> or_empty h)\<rparr>"

section \<open>Event pages\<close>

text \<open>
  A deck is the dictionary appended to \<^verbatim>\<open>decks\<close>, an event record the dictionary
  \<^verbatim>\<open>event_data\<close> that \<^verbatim>\<open>extract_event_data\<close> returns.
\<close>

record Deck =
  position :: int
  deck_name :: string
  player :: string
  deck_url :: string

record EventRecord =
  event_name :: string
  date :: string
  event_url :: string
  total_decks :: int
  decks :: "Deck list"

text \<open>
  \<^verbatim>\<open>re.search(r'\d{2}/\d{2}/\d{2}', page_source)\<close>: the leftmost place where the pattern
  matches, and the eight characters matched there.
\<close>

definition is_digit :: "char \<Rightarrow> bool" where
  "is_digit c = (c \<in> set ''0123456789'')"

definition date_at :: "string \<Rightarrow> bool" where
  "date_at s =
     (case s of
        a # b # c # d # e # f # g # h # _ \<Rightarrow>
          is_digit a \<and> is_digit b \<and> c = CHR ''/'' \<and> is_digit d \<and> is_digit e
          \<and> f = CHR ''/'' \<and> is_digit g \<and> is_digit h
      | _ \<Rightarrow> False)"

fun date_search :: "string \<Rightarrow> string option" where
  "date_search [] = None"
| "date_search (c # cs) = (if date_at (c # cs) then Some (take 8 (c # cs)) else date_search cs)"

text \<open>
  The loop over \<^verbatim>\<open>deck_links\<close>, with its two variables \<^verbatim>\<open>decks\<close> and \<^verbatim>\<open>position_counter\<close>.
  A fault on a read is caught inside the loop (\<^verbatim>\<open>except: continue\<close>).
\<close>

fun deck_loop :: "element list \<Rightarrow> Deck list \<Rightarrow> int \<Rightarrow> Deck list" where
  "deck_loop [] ds position_counter = ds"
| "deck_loop (link # rest) ds position_counter =
     (case el_text link of Inl _ \<Rightarrow> deck_loop rest ds position_counter | Inr t \<Rightarrow>
     (case el_href link of Inl _ \<Rightarrow> deck_loop rest ds position_counter | Inr href \<Rightarrow>
        (if py_strip t \<noteq> [] \<and> truthy href \<and> py_in ''&d='' (or_empty href)
         then deck_loop rest
                (ds @ [\<lparr>position = position_counter, deck_name = py_strip t,
                        player = ''Unknown'', deck_url = or_empty href\<rparr>])
                (position_counter + 1)
         else deck_loop rest ds position_counter)))"

text \<open>
  What the loop does with one deck anchor, as a test, and the result of the loop as a list:
  an anchor is kept when both reads succeed, its stripped text is not empty and its address
  is not empty and contains \<^verbatim>\<open>&d=\<close>; the anchors kept are numbered in order.
\<close>

definition deck_kept :: "element \<Rightarrow> bool" where
  "deck_kept l =
     (case el_text l of Inl _ \<Rightarrow> False | Inr t \<Rightarrow>
     (case el_href l of Inl _ \<Rightarrow> False | Inr h \<Rightarrow>
        py_strip t \<noteq> [] \<and> truthy h \<and> py_in ''&d='' (or_empty h)))"

definition deck_of :: "int \<Rightarrow> element \<Rightarrow> Deck" where
  "deck_of i l =
     \<lparr>position = i,
      deck_name = (case el_text l of Inl _ \<Rightarrow> [] | Inr t \<Rightarrow> py_strip t),
      player = ''Unknown'',
      deck_url = (case el_href l of Inl _ \<Rightarrow> [] | Inr h \<Rightarrow> or_empty h)\<rparr>"

fun number_from :: "int \<Rightarrow> element list \<Rightarrow> Deck list" where
  "number_from i [] = []"
| "number_from i (l # ls) = deck_of i l # number_from (i + 1) ls"

text \<open>
  \<^verbatim>\<open>extract_event_data\<close>. Only the navigation stands directly in the outer \<^verbatim>\<open>try\<close>; the
  date and the decks each have a handler of their own, which keeps the value the variable
  had when the fault happened (\<^verbatim>\<open>"Unknown"\<close>, the empty list).
\<close>

definition extract_date :: "document \<Rightarrow> string" where
  "extract_date doc =
     (case page_source doc of Inl _ \<Rightarrow> ''Unknown''
      | Inr src \<Rightarrow> (case date_search src of None \<Rightarrow> ''Unknown'' | Some d \<Rightarrow> d))"

definition extract_decks :: "document \<Rightarrow> Deck list" where
  "extract_decks doc =
     (case find_elements_css ''&d='' (anchors doc) of Inl _ \<Rightarrow> []
      | Inr deck_links \<Rightarrow> deck_loop deck_links [] 1)"

definition extract_event_data :: "site \<Rightarrow> string \<Rightarrow> string \<Rightarrow> EventRecord option" where
  "extract_event_data s ev_url ev_name =
     (case driver_get s ev_url of Inl _ \<Rightarrow> None
      | Inr p \<Rightarrow>
          Some \<lparr>event_name = ev_name, date = extract_date (page s p), event_url = ev_url,
                 total_decks = int (length (extract_decks (page s p))),
                 decks = extract_decks (page s p)\<rparr>)"

section \<open>Pagination\<close>

subsection \<open>XPath text functions and Python's \<^verbatim>\<open>str\<close> of an integer\<close>

text \<open>
  XPath \<^verbatim>\<open>normalize-space\<close> drops leading and trailing XML white space (space, tab,
  carriage return, line feed) and replaces every inner run of it by one space. The flag of
  \<open>squeeze\<close> says that white space was passed since the last character kept.
\<close>

definition xml_space :: "char \<Rightarrow> bool" where
  "xml_space c = (c \<in> set [CHR 0x20, CHR 0x09, CHR 0x0D, CHR 0x0A])"

primrec squeeze :: "string \<Rightarrow> bool \<Rightarrow> string" where
  "squeeze [] pending = []"
| "squeeze (c # cs) pending =
     (if xml_space c then squeeze cs True
      else (if pending then [CHR 0x20] else []) @ c # squeeze cs False)"

definition xpath_normalize_space :: "string \<Rightarrow> string" where
  "xpath_normalize_space s = squeeze (dropWhile xml_space s) False"

definition digit_char :: "nat \<Rightarrow> char" where
  "digit_char d = char_of (48 + d)"

fun str_nat :: "nat \<Rightarrow> string" where
  "str_nat n = (if n < 10 then [digit_char n] else str_nat (n div 10) @ [digit_char (n mod 10)])"

declare str_nat.simps [simp del]

definition py_str :: "int \<Rightarrow> string" where
  "py_str i = (if i < 0 then CHR ''-'' # str_nat (nat (- i)) else str_nat (nat i))"

subsection \<open>The pagination controller\<close>

text \<open>
  What one attempt to go to the next page ends with: the browser went to a page and
  \<^verbatim>\<open>has_next_page\<close> was set; nothing was found and the next method is tried; or a call
  raised, which the handler around both methods catches with \<^verbatim>\<open>has_next_page\<close> still
  false (the flag is set last). A fault remembers the page the browser shows.
\<close>

datatype outcome = Navigated nat | NotFound | Faulted nat

text \<open>
  The click by script, the settle delay, and the read of \<^verbatim>\<open>driver.current_url\<close> on the page
  reached, after which the flag is set.
\<close>

definition click_through :: "site \<Rightarrow> nat \<Rightarrow> element \<Rightarrow> outcome" where
  "click_through s cur link =
     (case el_click link of Inl _ \<Rightarrow> Faulted cur
      | Inr p \<Rightarrow> (case current_url (page s p) of Inl _ \<Rightarrow> Faulted p | Inr _ \<Rightarrow> Navigated p))"

text \<open>
  Method 1: the first anchor of the last \<^verbatim>\<open>div.Nav_norm\<close> whose first text node contains
  \<^verbatim>\<open>Next\<close>, \<^verbatim>\<open>next\<close> or \<^verbatim>\<open>NEXT\<close>. When the div has none, its text is read for the log.
\<close>

definition is_next_anchor :: "element \<Rightarrow> bool" where
  "is_next_anchor e =
     (py_in ''Next'' (dom_text e) \<or> py_in ''next'' (dom_text e) \<or> py_in ''NEXT'' (dom_text e))"

definition find_next_link :: "document \<Rightarrow> fault + element option" where
  "find_next_link doc =
     (case nav_divs doc of Inl f \<Rightarrow> Inl f
      | Inr divs \<Rightarrow>
          if divs = [] then Inr None
          else
            (case inner_anchors (last divs) of Inl f \<Rightarrow> Inl f
             | Inr inside \<Rightarrow>
                 (case filter is_next_anchor inside of
                    next_link # _ \<Rightarrow> Inr (Some next_link)
                  | [] \<Rightarrow>
                      (case inner_text (last divs) of Inl f \<Rightarrow> Inl f | Inr _ \<Rightarrow> Inr None))))"

text \<open>
  The link found is read (class, href, and for the log text and \<^verbatim>\<open>is_enabled()\<close>), then
  clicked unless its class contains \<^verbatim>\<open>Nav_PN_no\<close> or it is not enabled.
\<close>

definition press_next :: "site \<Rightarrow> nat \<Rightarrow> element \<Rightarrow> outcome" where
  "press_next s cur next_link =
     (case el_class next_link of Inl _ \<Rightarrow> Faulted cur | Inr next_class \<Rightarrow>
     (case el_href next_link of Inl _ \<Rightarrow> Faulted cur | Inr next_href \<Rightarrow>
     (case el_text next_link of Inl _ \<Rightarrow> Faulted cur | Inr _ \<Rightarrow>
     (case el_enabled next_link of Inl _ \<Rightarrow> Faulted cur | Inr enabled \<Rightarrow>
        if py_in ''Nav_PN_no'' (or_empty next_class) then NotFound
        else if enabled then click_through s cur next_link
        else NotFound))))"

definition method1 :: "site \<Rightarrow> nat \<Rightarrow> outcome" where
  "method1 s cur =
     (case find_next_link (page s cur) of Inl _ \<Rightarrow> Faulted cur
      | Inr None \<Rightarrow> NotFound
      | Inr (Some next_link) \<Rightarrow> press_next s cur next_link)"

text \<open>
  Method 2. The three XPath selectors of \<^verbatim>\<open>page_selectors\<close>, as tests on an anchor:
  \<^verbatim>\<open>//a[normalize-space(text())='N']\<close>, \<^verbatim>\<open>//a[contains(@href, 'cp=N')]\<close> and
  \<^verbatim>\<open>//a[contains(@href, '&cp=N') or contains(@href, '?cp=N')]\<close>, with \<^verbatim>\<open>N\<close> the numeral of
  \<^verbatim>\<open>next_page_num\<close>.
\<close>

definition page_selectors :: "int \<Rightarrow> (element \<Rightarrow> bool) list" where
  "page_selectors next_page_num =
     [\<lambda>e. xpath_normalize_space (dom_text e) = py_str next_page_num,
      href_contains (''cp='' @ py_str next_page_num),
      \<lambda>e. href_contains (''&cp='' @ py_str next_page_num) e
           \<or> href_contains (''?cp='' @ py_str next_page_num) e]"

text \<open>
  The validation loop over the links one selector found: each link is read, then skipped
  when its class contains \<^verbatim>\<open>Nav_PN_no\<close>, when it does not look like a pagination link
  (the test ends with \<^verbatim>\<open>len(link_text) > 3\<close>), and taken otherwise.
\<close>

fun first_valid_link :: "element list \<Rightarrow> fault + element option" where
  "first_valid_link [] = Inr None"
| "first_valid_link (page_link # rest) =
     (case el_text page_link of Inl f \<Rightarrow> Inl f | Inr t \<Rightarrow>
     (case el_href page_link of Inl f \<Rightarrow> Inl f | Inr h \<Rightarrow>
     (case el_class page_link of Inl f \<Rightarrow> Inl f | Inr c \<Rightarrow>
        (let link_text = py_strip t; link_href = or_empty h; link_class = or_empty c
         in if py_in ''Nav_PN_no'' link_class then first_valid_link rest
            else if py_in ''archetype'' link_href
                    \<or> py_in ''aggro'' (py_lower link_text)
                    \<or> py_in ''control'' (py_lower link_text)
                    \<or> py_in ''combo'' (py_lower link_text)
                    \<or> length link_text > 3
                 then first_valid_link rest
            else Inr (Some page_link)))))"

text \<open>The loop over the selectors: the first selector with a valid link wins.\<close>

fun try_selectors :: "(element \<Rightarrow> bool) list \<Rightarrow> fault + element list \<Rightarrow> fault + element option" where
  "try_selectors [] found = Inr None"
| "try_selectors (selector # others) found =
     (case found of Inl f \<Rightarrow> Inl f
      | Inr els \<Rightarrow>
          (case first_valid_link (filter selector els) of
             Inl f \<Rightarrow> Inl f
           | Inr (Some page_link) \<Rightarrow> Inr (Some page_link)
           | Inr None \<Rightarrow> try_selectors others found))"

definition numbered_link_search :: "int \<Rightarrow> fault + element list \<Rightarrow> fault + element option" where
  "numbered_link_search next_page_num found = try_selectors (page_selectors next_page_num) found"

definition method2 :: "site \<Rightarrow> int \<Rightarrow> nat \<Rightarrow> outcome" where
  "method2 s current_page cur =
     (case numbered_link_search (current_page + 1) (anchors (page s cur)) of
        Inl _ \<Rightarrow> Faulted cur
      | Inr None \<Rightarrow> NotFound
      | Inr (Some page_link) \<Rightarrow> click_through s cur page_link)"

text \<open>
  Both methods in their handler. The result is \<^verbatim>\<open>has_next_page\<close> and the page the browser
  shows. (When neither method navigated, the source goes on to list candidate links in the
  log; a fault there is caught by the same handler, and the flag is false either way.)
\<close>

definition pagination_controller :: "site \<Rightarrow> int \<Rightarrow> nat \<Rightarrow> bool \<times> nat" where
  "pagination_controller s current_page cur =
     (case method1 s cur of
        Navigated p \<Rightarrow> (True, p)
      | Faulted p \<Rightarrow> (False, p)
      | NotFound \<Rightarrow>
          (case method2 s current_page cur of
             Navigated p \<Rightarrow> (True, p)
           | Faulted p \<Rightarrow> (False, p)
           | NotFound \<Rightarrow> (False, cur)))"

subsection \<open>The page loop\<close>

text \<open>
  One page's events. When the page gives none, the source inspects the page for the log:
  it searches the \<^verbatim>\<open>table.Stable\<close> elements and all tables, reads the title and the
  address, and searches every Stable table for anchors. These calls stand outside any inner
  handler, so a fault there leaves the loop and reaches the handler of \<^verbatim>\<open>scrape_from_url\<close>.
\<close>

definition inspect_page :: "document \<Rightarrow> fault + unit" where
  "inspect_page doc =
     (case stable_tables doc of Inl f \<Rightarrow> Inl f | Inr tables \<Rightarrow>
     (case all_tables doc of Inl f \<Rightarrow> Inl f | Inr _ \<Rightarrow>
     (case title doc of Inl f \<Rightarrow> Inl f | Inr _ \<Rightarrow>
     (case current_url doc of Inl f \<Rightarrow> Inl f | Inr _ \<Rightarrow>
        (case find (\<lambda>t. isl (inner_anchors t)) tables of
           Some _ \<Rightarrow> Inl WebDriverFault
         | None \<Rightarrow> Inr ())))))"

definition scrape_page :: "document \<Rightarrow> fault + EventLink list" where
  "scrape_page doc =
     (let page_events = get_event_links_from_current_page doc
      in if page_events \<noteq> [] then Inr page_events
         else (case inspect_page doc of Inl f \<Rightarrow> Inl f | Inr _ \<Rightarrow> Inr []))"

text \<open>
  The \<^verbatim>\<open>while True\<close> loop of \<^verbatim>\<open>scrape_from_url\<close>, over any page scraper and any pagination
  controller acting on a browser state of type \<open>'b\<close>. Its variables are \<^verbatim>\<open>current_page\<close>
  and \<^verbatim>\<open>all_event_links\<close>. The loop ends when the controller reports no next page, when
  the incremented page counter exceeds 5000, or with a fault of the page scraper.

  The last argument and the second component of the result are not in the source: they
  count the iterations begun, so that the number of iterations can be stated.
\<close>

record 'b loop_end =
  final_page :: int
  final_state :: 'b
  collected :: "EventLink list"

function page_loop ::
  "('b \<Rightarrow> fault + EventLink list) \<Rightarrow> (int \<Rightarrow> 'b \<Rightarrow> bool \<times> 'b) \<Rightarrow>
   int \<Rightarrow> 'b \<Rightarrow> EventLink list \<Rightarrow> nat \<Rightarrow> (fault + 'b loop_end) \<times> nat" where
  "page_loop scrape controller current_page st all_event_links n =
     (case scrape st of Inl f \<Rightarrow> (Inl f, Suc n)
      | Inr page_events \<Rightarrow>
          (case controller current_page st of
             (has_next_page, st') \<Rightarrow>
               if \<not> has_next_page
               then (Inr \<lparr>final_page = current_page, final_state = st',
                          collected = all_event_links @ page_events\<rparr>, Suc n)
               else if current_page + 1 > 5000
               then (Inr \<lparr>final_page = current_page + 1, final_state = st',
                          collected = all_event_links @ page_events\<rparr>, Suc n)
               else page_loop scrape controller (current_page + 1) st'
                      (all_event_links @ page_events) (Suc n)))"
  by pat_completeness auto
termination
  by (relation "measure (\<lambda>(scrape, controller, current_page, st, all_event_links, n).
        nat (5000 - current_page))") auto

declare page_loop.simps [simp del]

text \<open>The loop as \<^verbatim>\<open>scrape_from_url\<close> starts it, on the site model.\<close>

definition scrape_all_pages :: "site \<Rightarrow> nat \<Rightarrow> (fault + nat loop_end) \<times> nat" where
  "scrape_all_pages s start =
     page_loop (\<lambda>cur. scrape_page (page s cur)) (pagination_controller s) 1 start [] 0"

text \<open>
  The one Python exception that the scraper's own code raises: the read of a local variable
  that is not bound yet.
\<close>

datatype py_error = UnboundLocalError

text \<open>
  \<^verbatim>\<open>scrape_from_url\<close> as a whole: load the address, run the page loop, remove duplicates,
  return 0 when nothing was collected, else extract every event and append the records
  obtained to \<^verbatim>\<open>self.all_events_data\<close>. The result is the number of events processed and
  the new \<^verbatim>\<open>all_events_data\<close>.

  A fault of the first navigation or of the page scraper reaches the outer handler, which
  logs \<^verbatim>\<open>traceback.format_exc()\<close> before its \<^verbatim>\<open>return 0\<close>. The statement \<^verbatim>\<open>import traceback\<close>
  in the handler of the pagination makes \<^verbatim>\<open>traceback\<close> a local variable of the whole
  function, bound only once that handler has run; and when that handler has run the loop
  ends at once and nothing after the loop faults. So whenever the outer handler runs the
  variable is unbound, and the call raises instead of returning 0.
\<close>

fun process_events :: "site \<Rightarrow> EventLink list \<Rightarrow> EventRecord list \<Rightarrow> int \<Rightarrow> int \<times> EventRecord list" where
  "process_events s [] all_events_data events_processed = (events_processed, all_events_data)"
| "process_events s (event # rest) all_events_data events_processed =
     (case extract_event_data s (url event) (name event) of
        Some event_data \<Rightarrow>
          process_events s rest (all_events_data @ [event_data]) (events_processed + 1)
      | None \<Rightarrow> process_events s rest all_events_data events_processed)"

definition scrape_from_url ::
  "site \<Rightarrow> string \<Rightarrow> EventRecord list \<Rightarrow> py_error + int \<times> EventRecord list" where
  "scrape_from_url s address all_events_data =
     (case driver_get s address of Inl _ \<Rightarrow> Inl UnboundLocalError
      | Inr start \<Rightarrow>
          (case fst (scrape_all_pages s start) of Inl _ \<Rightarrow> Inl UnboundLocalError
           | Inr e \<Rightarrow>
               if length (collected e) = 0 then Inr (0, all_events_data)
               else Inr (process_events s (deduplicate (collected e)) all_events_data 0)))"

section \<open>Export\<close>

text \<open>
  A row is the dictionary appended to \<^verbatim>\<open>all_decks\<close>; the nested loops of \<^verbatim>\<open>save_data\<close>
  produce the rows event by event and, within an event, deck by deck.
\<close>

record Row =
  row_event_name :: string
  row_event_date :: string
  row_event_url :: string
  row_deck_position :: int
  row_deck_name :: string
  row_player_name :: string
  row_deck_url :: string

definition deck_row :: "EventRecord \<Rightarrow> Deck \<Rightarrow> Row" where
  "deck_row event deck =
     \<lparr>row_event_name = event_name event, row_event_date = date event,
      row_event_url = event_url event, row_deck_position = position deck,
      row_deck_name = deck_name deck, row_player_name = player deck,
      row_deck_url = deck_url deck\<rparr>"

definition flatten :: "EventRecord list \<Rightarrow> Row list" where
  "flatten all_events_data = concat (map (\<lambda>event. map (deck_row event) (decks event)) all_events_data)"

text \<open>
  The CSV text is produced by pandas, which is not part of the repository. What the model
  takes from it: \<^verbatim>\<open>to_csv\<close> writes the header line when asked to, then one piece of text
  per row of the frame, which depends on the row alone (the frame's columns and their types
  are fixed by \<^verbatim>\<open>all_decks\<close>, and a slice keeps them); mode \<^verbatim>\<open>'w'\<close> replaces the file and mode
  \<^verbatim>\<open>'a'\<close> appends to it, creating it when missing. The header line and the text of a row are
  parameters. The file \<^verbatim>\<open>mtgtop8_decks.csv\<close> is \<open>None\<close> while it does not exist. Writing is
  taken not to fail.
\<close>

record csv_format =
  csv_header :: string
  csv_row :: "Row \<Rightarrow> string"

definition to_csv :: "csv_format \<Rightarrow> Row list \<Rightarrow> bool \<Rightarrow> bool \<Rightarrow> string option \<Rightarrow> string option" where
  "to_csv fmt frame appending with_header file =
     Some ((if appending then (case file of None \<Rightarrow> [] | Some old \<Rightarrow> old) else [])
           @ (if with_header then csv_header fmt else [])
           @ concat (map (csv_row fmt) frame))"

definition chunk_size :: nat where
  "chunk_size = 10000"

text \<open>
  \<^verbatim>\<open>for i in range(0, len(df), chunk_size)\<close>: the chunk \<^verbatim>\<open>df[i:i+chunk_size]\<close> is written with
  the header and mode \<^verbatim>\<open>'w'\<close> when \<^verbatim>\<open>i == 0\<close>, appended without header otherwise.
\<close>

function chunk_loop :: "csv_format \<Rightarrow> Row list \<Rightarrow> nat \<Rightarrow> string option \<Rightarrow> string option" where
  "chunk_loop fmt df i file =
     (if i < length df
      then chunk_loop fmt df (i + chunk_size)
             (to_csv fmt (take chunk_size (drop i df)) (i \<noteq> 0) (i = 0) file)
      else file)"
  by pat_completeness auto
termination
  by (relation "measure (\<lambda>(fmt, df, i, file). length df - i)") (auto simp: chunk_size_def)

declare chunk_loop.simps [simp del]

text \<open>
  \<^verbatim>\<open>save_data\<close>, on the accumulated records and the file. It returns at once when there
  are no records. Otherwise it flattens them; when there are rows it binds
  \<^verbatim>\<open>csv_filename\<close> and writes them, in chunks above 100000 rows and at once otherwise; then
  it logs the summary, whose last line reads \<^verbatim>\<open>csv_filename\<close>: when no rows were written
  the variable is unbound there and the read raises.
\<close>

definition save_data :: "csv_format \<Rightarrow> EventRecord list \<Rightarrow> string option \<Rightarrow> (py_error + unit) \<times> string option" where
  "save_data fmt all_events_data file =
     (if all_events_data = [] then (Inr (), file)
      else
        (let all_decks = flatten all_events_data
         in if all_decks \<noteq> []
            then (Inr (),
                  if length all_decks > 100000 then chunk_loop fmt all_decks 0 file
                  else to_csv fmt all_decks False True file)
            else (Inl UnboundLocalError, file)))"

section \<open>Example pages\<close>

text \<open>
  Concrete pages on which the definitions are evaluated. \<open>anchor\<close> is an anchor all of
  whose calls succeed, with a visible text, an address and a class; a click on it leads to
  page 0.
\<close>

definition anchor :: "string \<Rightarrow> string \<Rightarrow> string \<Rightarrow> element" where
  "anchor t h c =
     \<lparr>el_text = Inr t, el_href = Inr (Some h), el_class = Inr (Some c), el_enabled = Inr True,
      dom_href = Some h, dom_text = t, el_click = Inr 0\<rparr>"

definition table_of :: "element list \<Rightarrow> container" where
  "table_of els = \<lparr>inner_anchors = Inr els, inner_text = Inr []\<rparr>"

definition listing_page :: "container list \<Rightarrow> container list \<Rightarrow> element list \<Rightarrow> document" where
  "listing_page tables navs links =
     \<lparr>scroll_script = Inr (), stable_tables = Inr tables, all_tables = Inr tables,
      nav_divs = Inr navs, anchors = Inr links, page_source = Inr [], current_url = Inr [],
      title = Inr []\<rparr>"

definition gp_paris :: element where
  "gp_paris = anchor ''GP Paris'' ''https://www.mtgtop8.com/event?e=1&f=ST'' []"

definition challenge :: element where
  "challenge = anchor ''MTGO Challenge'' ''https://www.mtgtop8.com/event?e=2&f=ST'' []"

definition league42 :: element where
  "league42 = anchor ''Standard League #42'' ''https://www.mtgtop8.com/event?e=3&f=ST'' []"

definition placeholder :: element where
  "placeholder = anchor ''Old Event'' ''https://www.mtgtop8.com/event?e=4&f=ST'' ''und''"

definition rounded :: element where
  "rounded = anchor ''Grand Prix Lyon'' ''https://www.mtgtop8.com/event?e=5&f=ST'' ''rounded''"

definition one_table_page :: document where
  "one_table_page = listing_page [table_of [gp_paris]] [] [gp_paris]"

definition two_table_page :: document where
  "two_table_page =
     listing_page [table_of [gp_paris], table_of [challenge, league42, placeholder]] []
       [gp_paris, challenge, league42, placeholder]"

definition three_table_page :: document where
  "three_table_page =
     listing_page [table_of [], table_of [challenge, league42, placeholder], table_of [rounded]] []
       [challenge, league42, placeholder, rounded]"

definition rounded_page :: document where
  "rounded_page = listing_page [table_of [], table_of [rounded]] [] [rounded]"

text \<open>An event page with three deck anchors, the second without visible text.\<close>

definition event_page :: document where
  "event_page =
     \<lparr>scroll_script = Inr (), stable_tables = Inr [], all_tables = Inr [], nav_divs = Inr [],
      anchors = Inr [anchor ''Mono Red'' ''https://www.mtgtop8.com/event?e=1&d=10&f=ST'' [],
                     anchor ''  '' ''https://www.mtgtop8.com/event?e=1&d=11&f=ST'' [],
                     anchor ''Esper Control'' ''https://www.mtgtop8.com/event?e=1&d=12&f=ST'' [],
                     anchor ''Home'' ''https://www.mtgtop8.com/index'' []],
      page_source = Inr ''<div>GP Paris 12/03/23</div>'', current_url = Inr [],
      title = Inr ''GP Paris''\<rparr>"

definition event_site :: site where
  "event_site = \<lparr>driver_get = (\<lambda>u. Inr 0), page = (\<lambda>p. event_page)\<rparr>"

text \<open>A site that cannot be reached, and one whose page faults on every read.\<close>

definition down_site :: site where
  "down_site = \<lparr>driver_get = (\<lambda>u. Inl WebDriverFault), page = (\<lambda>p. event_page)\<rparr>"

definition broken_page :: document where
  "broken_page =
     \<lparr>scroll_script = Inl WebDriverFault, stable_tables = Inl WebDriverFault,
      all_tables = Inl WebDriverFault, nav_divs = Inl WebDriverFault,
      anchors = Inl WebDriverFault, page_source = Inl WebDriverFault,
      current_url = Inl WebDriverFault, title = Inl WebDriverFault\<rparr>"

definition broken_site :: site where
  "broken_site = \<lparr>driver_get = (\<lambda>u. Inr 0), page = (\<lambda>p. broken_page)\<rparr>"

text \<open>
  A listing page whose first Stable table cannot be searched, and an event page whose
  second deck anchor cannot be read.
\<close>

definition stale_table :: container where
  "stale_table = \<lparr>inner_anchors = Inl WebDriverFault, inner_text = Inl WebDriverFault\<rparr>"

definition stale_first_table_page :: document where
  "stale_first_table_page = listing_page [stale_table, table_of [challenge]] [] [challenge]"

definition stale_anchor :: element where
  "stale_anchor =
     (anchor ''Izzet'' ''https://www.mtgtop8.com/event?e=1&d=21&f=ST'' [])
       \<lparr>el_text := Inl WebDriverFault\<rparr>"

definition stale_anchor_page :: document where
  "stale_anchor_page =
     \<lparr>scroll_script = Inr (), stable_tables = Inr [], all_tables = Inr [], nav_divs = Inr [],
      anchors = Inr [anchor ''Mono Red'' ''https://www.mtgtop8.com/event?e=1&d=20&f=ST'' [],
                     stale_anchor,
                     anchor ''Gruul'' ''https://www.mtgtop8.com/event?e=1&d=22&f=ST'' []],
      page_source = Inl WebDriverFault, current_url = Inr [], title = Inr []\<rparr>"

definition stale_anchor_site :: site where
  "stale_anchor_site = \<lparr>driver_get = (\<lambda>u. Inr 0), page = (\<lambda>p. stale_anchor_page)\<rparr>"

text \<open>
  Page 99 of a long listing: no \<^verbatim>\<open>Nav_norm\<close> div, and a link to page 100 whose text is the
  numeral and whose address does not name the page. A click on it leads to page 1 of the
  model's numbering.
\<close>

definition page100_link :: element where
  "page100_link =
     (anchor ''100'' ''https://www.mtgtop8.com/format?f=ST'' ''Nav_PN'')\<lparr>el_click := Inr 1\<rparr>"

definition numbered_site :: site where
  "numbered_site =
     \<lparr>driver_get = (\<lambda>u. Inr 0), page = (\<lambda>p. listing_page [] [] [page100_link])\<rparr>"

text \<open>A site whose only page has a Next link that leads back to the page itself.\<close>

definition next_link_home :: element where
  "next_link_home = anchor ''Next'' ''https://www.mtgtop8.com/format?f=ST'' ''Nav_PN''"

definition circular_page :: document where
  "circular_page = listing_page [] [table_of [next_link_home]] [next_link_home]"

definition circular_site :: site where
  "circular_site = \<lparr>driver_get = (\<lambda>u. Inr 0), page = (\<lambda>p. circular_page)\<rparr>"

text \<open>A listing page with one event, whose event page is \<open>event_page\<close>.\<close>

definition small_site :: site where
  "small_site =
     \<lparr>driver_get = (\<lambda>u. if u = ''https://www.mtgtop8.com/format?f=ST'' then Inr 0 else Inr 1),
      page = (\<lambda>p. if p = 0 then two_table_page else event_page)\<rparr>"

text \<open>
  A CSV format for the examples: the seven column names, and the fields of a row separated
  by commas.
\<close>

definition plain_csv :: csv_format where
  "plain_csv =
     \<lparr>csv_header =
        ''event_name,event_date,event_url,deck_position,deck_name,player_name,deck_url'' @ [CHR 0x0A],
      csv_row = (\<lambda>r. row_event_name r @ '','' @ row_event_date r @ '','' @ row_event_url r @ '',''
                   @ py_str (row_deck_position r) @ '','' @ row_deck_name r @ '',''
                   @ row_player_name r @ '','' @ row_deck_url r @ [CHR 0x0A])\<rparr>"

definition event_e1 :: EventRecord where
  "event_e1 =
     \<lparr>event_name = ''E1'', date = ''01/02/23'', event_url = ''u1'', total_decks = 1,
      decks = [\<lparr>position = 1, deck_name = ''D1'', player = ''Unknown'', deck_url = ''d1''\<rparr>]\<rparr>"

definition event_without_decks :: EventRecord where
  "event_without_decks =
     \<lparr>event_name = ''E2'', date = ''Unknown'', event_url = ''u2'', total_decks = 0, decks = []\<rparr>"

definition row_d1 :: Row where
  "row_d1 = deck_row event_e1 (hd (decks event_e1))"

section \<open>The deduplicator\<close>

lemma dedup_loop_acc:
  "dedup_loop xs acc seen = acc @ dedup_loop xs [] seen"
proof (induction xs arbitrary: acc seen)
  case Nil
  show ?case by simp
next
  case (Cons x xs)
  have a: "dedup_loop xs (acc @ [x]) (insert (url x) seen)
             = acc @ x # dedup_loop xs [] (insert (url x) seen)"
    using Cons.IH [of "acc @ [x]"] Cons.IH [of "[x]"] by simp
  have b: "dedup_loop xs [x] (insert (url x) seen) = x # dedup_loop xs [] (insert (url x) seen)"
    using Cons.IH [of "[x]"] by simp
  show ?case using a b Cons.IH [of acc seen] by simp
qed

lemma dedup_loop_Cons:
  "dedup_loop (x # xs) [] seen =
     (if url x \<notin> seen then x # dedup_loop xs [] (insert (url x) seen)
      else dedup_loop xs [] seen)"
  using dedup_loop_acc [of xs "[x]" "insert (url x) seen"] by simp

declare dedup_loop.simps(2) [simp del]

lemma dedup_loop_urls:
  "set (map url (dedup_loop xs [] seen)) = set (map url xs) - seen"
  by (induction xs arbitrary: seen) (auto simp: dedup_loop_Cons)

lemma dedup_loop_distinct:
  "distinct (map url (dedup_loop xs [] seen))"
proof (induction xs arbitrary: seen)
  case Nil
  show ?case by simp
next
  case (Cons x xs)
  have "url x \<notin> set (map url (dedup_loop xs [] (insert (url x) seen)))"
    by (simp only: dedup_loop_urls) simp
  then show ?case using Cons.IH by (simp add: dedup_loop_Cons)
qed

lemma dedup_loop_first:
  "e \<in> set (dedup_loop xs [] seen) \<Longrightarrow> find (\<lambda>x. url x = url e) xs = Some e"
proof (induction xs arbitrary: seen)
  case Nil
  then show ?case by simp
next
  case (Cons x xs)
  show ?case
  proof (cases "url x = url e")
    case True
    have "url e \<notin> set (map url (dedup_loop xs [] (insert (url x) seen)))"
      using True by (simp only: dedup_loop_urls) simp
    then have "e \<notin> set (dedup_loop xs [] (insert (url x) seen))" by auto
    moreover have "url e \<notin> set (map url (dedup_loop xs [] seen)) \<or> url x \<notin> seen"
      by (cases "url x \<in> seen") (simp_all only: dedup_loop_urls True, simp_all)
    ultimately have "e = x"
      using Cons.prems True by (auto simp: dedup_loop_Cons split: if_splits)
    then show ?thesis by simp
  next
    case False
    then have "e \<in> set (dedup_loop xs [] (insert (url x) seen)) \<or> e \<in> set (dedup_loop xs [] seen)"
      using Cons.prems by (auto simp: dedup_loop_Cons split: if_splits)
    then have "find (\<lambda>x. url x = url e) xs = Some e"
      using Cons.IH by blast
    then show ?thesis using False by simp
  qed
qed

lemma dedup_loop_positions:
  "dedup_loop xs [] seen =
     map (\<lambda>i. xs ! i)
       (filter (\<lambda>i. url (xs ! i) \<notin> seen \<union> url ` set (take i xs)) [0..<length xs])"
proof (induction xs arbitrary: seen)
  case Nil
  show ?case by simp
next
  case (Cons x xs)
  let ?P = "\<lambda>s i. url (xs ! i) \<notin> s \<union> url ` set (take i xs)"
  let ?Q = "\<lambda>i. url ((x # xs) ! i) \<notin> seen \<union> url ` set (take i (x # xs))"
  have upt: "[0..<length (x # xs)] = 0 # map Suc [0..<length xs]"
    by (simp add: upt_conv_Cons map_Suc_upt del: upt_Suc)
  have shift: "map (\<lambda>i. (x # xs) ! i) (filter ?Q (map Suc [0..<length xs]))
                 = map (\<lambda>i. xs ! i) (filter (?P (insert (url x) seen)) [0..<length xs])"
    by (simp add: filter_map comp_def conj_commute conj_left_commute)
  have same: "url x \<in> seen \<Longrightarrow> insert (url x) seen = seen" by auto
  show ?case
  proof (cases "url x \<in> seen")
    case True
    have "dedup_loop (x # xs) [] seen = dedup_loop xs [] (insert (url x) seen)"
      using True same [OF True] by (simp add: dedup_loop_Cons)
    also have "\<dots> = map (\<lambda>i. xs ! i) (filter (?P (insert (url x) seen)) [0..<length xs])"
      by (rule Cons.IH)
    also have "\<dots> = map (\<lambda>i. (x # xs) ! i) (filter ?Q [0..<length (x # xs)])"
      using True shift by (simp only: upt) simp
    finally show ?thesis .
  next
    case False
    have "dedup_loop (x # xs) [] seen = x # dedup_loop xs [] (insert (url x) seen)"
      using False by (simp add: dedup_loop_Cons)
    also have "\<dots> = x # map (\<lambda>i. xs ! i) (filter (?P (insert (url x) seen)) [0..<length xs])"
      by (simp only: Cons.IH)
    also have "\<dots> = map (\<lambda>i. (x # xs) ! i) (filter ?Q [0..<length (x # xs)])"
      using False shift by (simp only: upt) simp
    finally show ?thesis .
  qed
qed

lemma dedup_loop_length:
  "length (dedup_loop xs [] seen) \<le> length xs"
  by (induction xs arbitrary: seen) (auto simp: dedup_loop_Cons le_SucI)

text \<open>
  Claim C1. For every input sequence of event links the deduplication returns exactly one
  entry per distinct url of the input; each output entry is the first input entry with its
  url (so it carries the first occurrence's name); the output lists the input's entries at
  their positions of first occurrence, in input order; and it is no longer than the input.
\<close>

theorem deduplicate_first_occurrence:
  "distinct (map url (deduplicate xs))
   \<and> set (map url (deduplicate xs)) = set (map url xs)
   \<and> (\<forall>e \<in> set (deduplicate xs). find (\<lambda>x. url x = url e) xs = Some e)
   \<and> deduplicate xs = first_occurrences_spec xs
   \<and> length (deduplicate xs) \<le> length xs"
proof -
  have "distinct (map url (deduplicate xs))"
    unfolding deduplicate_def by (rule dedup_loop_distinct)
  moreover have "set (map url (deduplicate xs)) = set (map url xs)"
    unfolding deduplicate_def by (simp only: dedup_loop_urls) simp
  moreover have "\<forall>e \<in> set (deduplicate xs). find (\<lambda>x. url x = url e) xs = Some e"
    unfolding deduplicate_def using dedup_loop_first by blast
  moreover have "deduplicate xs = first_occurrences_spec xs"
    unfolding deduplicate_def first_occurrences_spec_def
    by (simp only: dedup_loop_positions [of xs "{}"]) simp
  moreover have "length (deduplicate xs) \<le> length xs"
    unfolding deduplicate_def by (rule dedup_loop_length)
  ultimately show ?thesis by blast
qed

theorem deduplicate_first_occurrence_witness:
  "deduplicate example_links
     = [\<lparr>name = ''GP Paris'', url = ''event?e=1''\<rparr>,
        \<lparr>name = ''MTGO Challenge'', url = ''event?e=2''\<rparr>]
   \<and> find (\<lambda>x. url x = ''event?e=1'') example_links
       = Some \<lparr>name = ''GP Paris'', url = ''event?e=1''\<rparr>
   \<and> first_occurrences_spec example_links
       = [\<lparr>name = ''GP Paris'', url = ''event?e=1''\<rparr>,
          \<lparr>name = ''MTGO Challenge'', url = ''event?e=2''\<rparr>]"
proof -
  have ev: "deduplicate example_links
     = [\<lparr>name = ''GP Paris'', url = ''event?e=1''\<rparr>,
        \<lparr>name = ''MTGO Challenge'', url = ''event?e=2''\<rparr>]"
    by (simp add: deduplicate_def example_links_def dedup_loop.simps(2))
  have mem: "\<lparr>name = ''GP Paris'', url = ''event?e=1''\<rparr> \<in> set (deduplicate example_links)"
    by (simp only: ev) simp
  have all: "\<forall>e \<in> set (deduplicate example_links).
      find (\<lambda>x. url x = url e) example_links = Some e"
    and sp: "deduplicate example_links = first_occurrences_spec example_links"
    using deduplicate_first_occurrence [of example_links] by blast+
  have "find (\<lambda>x. url x = url \<lparr>name = ''GP Paris'', url = ''event?e=1''\<rparr>) example_links
      = Some \<lparr>name = ''GP Paris'', url = ''event?e=1''\<rparr>"
    using all mem by blast
  then have "find (\<lambda>x. url x = ''event?e=1'') example_links
      = Some \<lparr>name = ''GP Paris'', url = ''event?e=1''\<rparr>"
    by simp
  then show ?thesis using ev sp by simp
qed

section \<open>The page event extractor\<close>

lemma event_link_step_eq:
  "event_link_step e acc = (if candidate_excluded e then acc else acc @ [link_of e])"
  by (auto simp: event_link_step_def candidate_excluded_def link_of_def truthy_def Let_def
      split: sum.splits option.splits)

lemma foldl_event_link_step:
  "foldl (\<lambda>event_links element. event_link_step element event_links) acc els
     = acc @ map link_of (filter (\<lambda>e. \<not> candidate_excluded e) els)"
  by (induction els arbitrary: acc) (simp_all add: event_link_step_eq)

lemma event_links_of_second_table:
  assumes "scroll_script doc = Inr ()" and "stable_tables doc = Inr (t0 # t1 # later)"
    and "inner_anchors t0 = Inr a0" and "inner_anchors t1 = Inr a1"
  shows "get_event_links_from_current_page doc =
           map link_of (filter (\<lambda>e. \<not> candidate_excluded e)
             (filter (href_contains ''event?e='') a1))"
  using assms
  by (simp add: get_event_links_from_current_page_def find_elements_css_def
      foldl_event_link_step)

lemma event_links_fault:
  assumes "stable_tables doc = Inr (t0 # t1 # later)"
    and "isl (scroll_script doc) \<or> isl (inner_anchors t0) \<or> isl (inner_anchors t1)"
  shows "get_event_links_from_current_page doc = []"
  using assms
  by (auto simp: get_event_links_from_current_page_def find_elements_css_def
      split: sum.splits)

text \<open>
  Claim C2. The page event extractor returns the empty list whenever the document has
  fewer than two \<^verbatim>\<open>table.Stable\<close> elements. With two or more (and the scroll and the
  searches in the first two tables succeeding) its result is made from the second table
  alone: it is the list of links of the anchors of the second table whose \<^verbatim>\<open>href\<close> contains
  \<^verbatim>\<open>event?e=\<close> and which the loop keeps, in page order, so every link returned is the link
  of such an anchor of the second table; and any other document with the same second table
  gives the same result, whatever anchors the first tables hold and whatever tables
  follow. When the scroll or the search in one of the first two tables faults, the result
  is empty.
\<close>

theorem second_table_only:
  "(stable_tables doc = Inr tables \<and> length tables < 2
      \<longrightarrow> get_event_links_from_current_page doc = [])
   \<and> (scroll_script doc = Inr () \<and> stable_tables doc = Inr (t0 # t1 # later)
      \<and> inner_anchors t0 = Inr a0 \<and> inner_anchors t1 = Inr a1
      \<longrightarrow> get_event_links_from_current_page doc
            = map link_of (filter (\<lambda>e. \<not> candidate_excluded e)
                (filter (href_contains ''event?e='') a1))
          \<and> (\<forall>l \<in> set (get_event_links_from_current_page doc).
                \<exists>a \<in> set a1. href_contains ''event?e='' a \<and> l = link_of a))
   \<and> (scroll_script doc = Inr () \<and> scroll_script doc' = Inr ()
      \<and> stable_tables doc = Inr (t0 # t1 # later) \<and> stable_tables doc' = Inr (t0' # t1 # later')
      \<and> inner_anchors t0 = Inr a0 \<and> inner_anchors t0' = Inr a0'
      \<longrightarrow> get_event_links_from_current_page doc = get_event_links_from_current_page doc')
   \<and> (stable_tables doc = Inr (t0 # t1 # later)
      \<and> (isl (scroll_script doc) \<or> isl (inner_anchors t0) \<or> isl (inner_anchors t1))
      \<longrightarrow> get_event_links_from_current_page doc = [])"
proof -
  have few: "stable_tables doc = Inr tables \<and> length tables < 2
      \<longrightarrow> get_event_links_from_current_page doc = []"
    by (auto simp: get_event_links_from_current_page_def split: sum.splits)
  have from_second: "scroll_script doc = Inr () \<and> stable_tables doc = Inr (t0 # t1 # later)
      \<and> inner_anchors t0 = Inr a0 \<and> inner_anchors t1 = Inr a1
      \<longrightarrow> get_event_links_from_current_page doc
            = map link_of (filter (\<lambda>e. \<not> candidate_excluded e)
                (filter (href_contains ''event?e='') a1))
          \<and> (\<forall>l \<in> set (get_event_links_from_current_page doc).
                \<exists>a \<in> set a1. href_contains ''event?e='' a \<and> l = link_of a)"
  proof (intro impI)
    assume h: "scroll_script doc = Inr () \<and> stable_tables doc = Inr (t0 # t1 # later)
      \<and> inner_anchors t0 = Inr a0 \<and> inner_anchors t1 = Inr a1"
    then have eq: "get_event_links_from_current_page doc
            = map link_of (filter (\<lambda>e. \<not> candidate_excluded e)
                (filter (href_contains ''event?e='') a1))"
      using event_links_of_second_table [of doc t0 t1 later a0 a1] by blast
    have "\<forall>l \<in> set (get_event_links_from_current_page doc).
                \<exists>a \<in> set a1. href_contains ''event?e='' a \<and> l = link_of a"
      unfolding eq by auto
    then show "get_event_links_from_current_page doc
            = map link_of (filter (\<lambda>e. \<not> candidate_excluded e)
                (filter (href_contains ''event?e='') a1))
          \<and> (\<forall>l \<in> set (get_event_links_from_current_page doc).
                \<exists>a \<in> set a1. href_contains ''event?e='' a \<and> l = link_of a)"
      using eq by blast
  qed
  have same: "scroll_script doc = Inr () \<and> scroll_script doc' = Inr ()
      \<and> stable_tables doc = Inr (t0 # t1 # later) \<and> stable_tables doc' = Inr (t0' # t1 # later')
      \<and> inner_anchors t0 = Inr a0 \<and> inner_anchors t0' = Inr a0'
      \<longrightarrow> get_event_links_from_current_page doc = get_event_links_from_current_page doc'"
    by (auto simp: get_event_links_from_current_page_def find_elements_css_def
        split: sum.splits)
  have fault: "stable_tables doc = Inr (t0 # t1 # later)
      \<and> (isl (scroll_script doc) \<or> isl (inner_anchors t0) \<or> isl (inner_anchors t1))
      \<longrightarrow> get_event_links_from_current_page doc = []"
    using event_links_fault [of doc t0 t1 later] by blast
  show ?thesis using few from_second same fault by blast
qed

theorem second_table_only_witness:
  "get_event_links_from_current_page one_table_page = []
   \<and> get_event_links_from_current_page three_table_page
       = map link_of (filter (\<lambda>e. \<not> candidate_excluded e)
           (filter (href_contains ''event?e='') [challenge, league42, placeholder]))
   \<and> get_event_links_from_current_page three_table_page
       = [\<lparr>name = ''MTGO Challenge'', url = ''https://www.mtgtop8.com/event?e=2&f=ST''\<rparr>]
   \<and> (\<exists>a \<in> set [challenge, league42, placeholder]. href_contains ''event?e='' a
         \<and> \<lparr>name = ''MTGO Challenge'', url = ''https://www.mtgtop8.com/event?e=2&f=ST''\<rparr>
             = link_of a)
   \<and> get_event_links_from_current_page two_table_page
       = get_event_links_from_current_page three_table_page
   \<and> isl (inner_anchors stale_table)
   \<and> get_event_links_from_current_page stale_first_table_page = []"
proof -
  let ?t1 = "table_of [challenge, league42, placeholder]"
  let ?a1 = "[challenge, league42, placeholder]"
  let ?link = "\<lparr>name = ''MTGO Challenge'', url = ''https://www.mtgtop8.com/event?e=2&f=ST''\<rparr>"
  have h1: "stable_tables one_table_page = Inr [table_of [gp_paris]]
            \<and> length [table_of [gp_paris]] < 2"
    by (simp add: one_table_page_def listing_page_def)
  have h2: "scroll_script three_table_page = Inr ()
      \<and> stable_tables three_table_page = Inr (table_of [] # ?t1 # [table_of [rounded]])
      \<and> inner_anchors (table_of []) = Inr [] \<and> inner_anchors ?t1 = Inr ?a1"
    by (simp add: three_table_page_def listing_page_def table_of_def)
  have h3: "scroll_script two_table_page = Inr () \<and> scroll_script three_table_page = Inr ()
      \<and> stable_tables two_table_page = Inr (table_of [gp_paris] # ?t1 # [])
      \<and> stable_tables three_table_page = Inr (table_of [] # ?t1 # [table_of [rounded]])
      \<and> inner_anchors (table_of [gp_paris]) = Inr [gp_paris]
      \<and> inner_anchors (table_of []) = Inr []"
    by (simp add: two_table_page_def three_table_page_def listing_page_def table_of_def)
  have st: "isl (inner_anchors stale_table)"
    by (simp add: stale_table_def)
  have h4: "stable_tables stale_first_table_page = Inr (stale_table # table_of [challenge] # [])
      \<and> (isl (scroll_script stale_first_table_page) \<or> isl (inner_anchors stale_table)
          \<or> isl (inner_anchors (table_of [challenge])))"
    using st by (simp add: stale_first_table_page_def listing_page_def)
  have c1: "get_event_links_from_current_page one_table_page = []"
    using second_table_only [of one_table_page "[table_of [gp_paris]]"] h1 by blast
  have c2: "get_event_links_from_current_page three_table_page
       = map link_of (filter (\<lambda>e. \<not> candidate_excluded e)
           (filter (href_contains ''event?e='') ?a1))"
    and c2': "\<forall>l \<in> set (get_event_links_from_current_page three_table_page).
                \<exists>a \<in> set ?a1. href_contains ''event?e='' a \<and> l = link_of a"
    using second_table_only [of three_table_page _ "table_of []" ?t1 "[table_of [rounded]]"
        "[]" ?a1] h2
    by blast+
  have c3: "get_event_links_from_current_page two_table_page
              = get_event_links_from_current_page three_table_page"
    using second_table_only [of two_table_page _ "table_of [gp_paris]" ?t1 "[]" "[gp_paris]" _
        three_table_page "table_of []" "[table_of [rounded]]" "[]"] h3
    by blast
  have c4: "get_event_links_from_current_page stale_first_table_page = []"
    using second_table_only [of stale_first_table_page _ stale_table "table_of [challenge]" "[]"]
      h4
    by blast
  have ev: "get_event_links_from_current_page three_table_page = [?link]"
    by code_simp
  then have "?link \<in> set (get_event_links_from_current_page three_table_page)" by simp
  then have c5: "\<exists>a \<in> set ?a1. href_contains ''event?e='' a \<and> ?link = link_of a"
    using c2' by blast
  show ?thesis using c1 c2 ev c5 c3 st c4 by blast
qed

text \<open>
  Claim C5 says that a candidate whose class attribute is not \<^verbatim>\<open>und\<close>, whose text and
  address are not empty and whose text does not contain \<^verbatim>\<open>league\<close> survives. The comment
  on the filter (\<^verbatim>\<open>Skip events with class="und"\<close>) and its log message say the same, but
  the test is \<^verbatim>\<open>'und' in element_class\<close>, a substring test. On a page whose second Stable
  table holds one event anchor with class \<^verbatim>\<open>rounded\<close>, text \<^verbatim>\<open>Grand Prix Lyon\<close> and a
  non-empty address, the extractor returns no link.
\<close>

theorem class_rounded_link_dropped:
  "href_contains ''event?e='' rounded
   \<and> el_text rounded = Inr ''Grand Prix Lyon'' \<and> py_strip ''Grand Prix Lyon'' \<noteq> []
   \<and> el_href rounded = Inr (Some ''https://www.mtgtop8.com/event?e=5&f=ST'')
   \<and> el_class rounded = Inr (Some ''rounded'') \<and> ''rounded'' \<noteq> ''und''
   \<and> \<not> py_in ''league'' (py_lower (py_strip ''Grand Prix Lyon''))
   \<and> scroll_script rounded_page = Inr ()
   \<and> stable_tables rounded_page = Inr [table_of [], table_of [rounded]]
   \<and> get_event_links_from_current_page rounded_page = []"
  by code_simp

section \<open>The event detail extractor\<close>

lemma deck_loop_dense:
  "(\<forall>i < length ds. position (ds ! i) = c0 + int i) \<Longrightarrow> pc = c0 + int (length ds) \<Longrightarrow>
   (\<forall>i < length (deck_loop els ds pc). position (deck_loop els ds pc ! i) = c0 + int i)"
proof (induction els arbitrary: ds pc)
  case Nil
  then show ?case by simp
next
  case (Cons e els)
  let ?d = "\<lambda>t h. \<lparr>position = pc, deck_name = py_strip t, player = ''Unknown'',
                      deck_url = or_empty h\<rparr>"
  have ext: "\<forall>i < length (ds @ [?d t h]). position ((ds @ [?d t h]) ! i) = c0 + int i" for t h
    using Cons.prems by (auto simp: nth_append less_Suc_eq)
  have cnt: "pc + 1 = c0 + int (length (ds @ [?d t h]))" for t h
    using Cons.prems by simp
  show ?case
    using Cons.IH [OF Cons.prems] Cons.IH [OF ext cnt]
    by (auto split: sum.splits)
qed

text \<open>
  Claim C3, as stated, fails: only a fault of the navigation reaches the handler that
  returns no record. On a page whose text cannot be read and whose search for deck anchors
  faults, the extractor returns a record, with the date \<^verbatim>\<open>Unknown\<close> and no decks.
\<close>

theorem fault_in_extraction_counterexample:
  "driver_get broken_site ''https://www.mtgtop8.com/event?e=1&f=ST'' = Inr 0
   \<and> page_source (page broken_site 0) = Inl WebDriverFault
   \<and> anchors (page broken_site 0) = Inl WebDriverFault
   \<and> extract_event_data broken_site ''https://www.mtgtop8.com/event?e=1&f=ST'' ''GP Paris''
       = Some \<lparr>event_name = ''GP Paris'', date = ''Unknown'',
                event_url = ''https://www.mtgtop8.com/event?e=1&f=ST'',
                total_decks = 0, decks = []\<rparr>"
  by code_simp

lemma deck_loop_number:
  "deck_loop els ds pc = ds @ number_from pc (filter deck_kept els)"
proof (induction els arbitrary: ds pc)
  case Nil
  show ?case by simp
next
  case (Cons e els)
  show ?case
    by (simp add: Cons.IH deck_kept_def deck_of_def split: sum.splits)
qed

text \<open>
  Claim C3, amended. The extractor returns no record when the navigation to the event page
  faults. When the navigation succeeds it returns a record, whatever faults afterwards: a
  fault on reading the page text leaves the date \<^verbatim>\<open>Unknown\<close>; a fault of the search for
  deck anchors leaves the decks empty; and a fault on reading one deck anchor skips that
  anchor only: the decks are the anchors whose \<^verbatim>\<open>href\<close> contains \<^verbatim>\<open>&d=\<close> and which are
  kept, numbered from 1 in page order, and an anchor with a faulting read is not kept.
\<close>

theorem extract_event_data_faults:
  "(driver_get s u = Inl f \<longrightarrow> extract_event_data s u n = None)
   \<and> (driver_get s u = Inr p \<longrightarrow>
        (\<exists>r. extract_event_data s u n = Some r
           \<and> (page_source (page s p) = Inl f1 \<longrightarrow> date r = ''Unknown'')
           \<and> (anchors (page s p) = Inl f2 \<longrightarrow> decks r = [])
           \<and> (anchors (page s p) = Inr els \<longrightarrow>
                decks r = number_from 1 (filter deck_kept (filter (href_contains ''&d='') els)))))
   \<and> (isl (el_text l) \<or> isl (el_href l) \<longrightarrow> \<not> deck_kept l)"
proof -
  have a: "driver_get s u = Inl f \<longrightarrow> extract_event_data s u n = None"
    by (simp add: extract_event_data_def)
  have b: "driver_get s u = Inr p \<longrightarrow>
        (\<exists>r. extract_event_data s u n = Some r
           \<and> (page_source (page s p) = Inl f1 \<longrightarrow> date r = ''Unknown'')
           \<and> (anchors (page s p) = Inl f2 \<longrightarrow> decks r = [])
           \<and> (anchors (page s p) = Inr els \<longrightarrow>
                decks r = number_from 1 (filter deck_kept (filter (href_contains ''&d='') els))))"
    by (simp add: extract_event_data_def extract_date_def extract_decks_def
        find_elements_css_def deck_loop_number)
  have c: "isl (el_text l) \<or> isl (el_href l) \<longrightarrow> \<not> deck_kept l"
    by (auto simp: deck_kept_def split: sum.splits)
  show ?thesis using a b c by blast
qed

theorem extract_event_data_faults_witness:
  "driver_get down_site ''u'' = Inl WebDriverFault
   \<and> extract_event_data down_site ''u'' ''GP Paris'' = None
   \<and> anchors (page broken_site 0) = Inl WebDriverFault
   \<and> (\<exists>r. extract_event_data broken_site ''u'' ''GP Paris'' = Some r \<and> decks r = [])
   \<and> page_source (page stale_anchor_site 0) = Inl WebDriverFault
   \<and> isl (el_text stale_anchor) \<and> \<not> deck_kept stale_anchor
   \<and> (\<exists>r. extract_event_data stale_anchor_site ''u'' ''GP Paris'' = Some r
          \<and> date r = ''Unknown''
          \<and> decks r =
              [\<lparr>position = 1, deck_name = ''Mono Red'', player = ''Unknown'',
                deck_url = ''https://www.mtgtop8.com/event?e=1&d=20&f=ST''\<rparr>,
               \<lparr>position = 2, deck_name = ''Gruul'', player = ''Unknown'',
                deck_url = ''https://www.mtgtop8.com/event?e=1&d=22&f=ST''\<rparr>])"
proof -
  let ?els = "[anchor ''Mono Red'' ''https://www.mtgtop8.com/event?e=1&d=20&f=ST'' [],
               stale_anchor,
               anchor ''Gruul'' ''https://www.mtgtop8.com/event?e=1&d=22&f=ST'' []]"
  let ?decks = "[\<lparr>position = 1, deck_name = ''Mono Red'', player = ''Unknown'',
                deck_url = ''https://www.mtgtop8.com/event?e=1&d=20&f=ST''\<rparr>,
               \<lparr>position = 2, deck_name = ''Gruul'', player = ''Unknown'',
                deck_url = ''https://www.mtgtop8.com/event?e=1&d=22&f=ST''\<rparr>]"
  have h1: "driver_get down_site ''u'' = Inl WebDriverFault"
    by (simp add: down_site_def)
  have h2: "driver_get broken_site ''u'' = Inr 0"
    "anchors (page broken_site 0) = Inl WebDriverFault"
    by (simp_all add: broken_site_def broken_page_def)
  have h3: "driver_get stale_anchor_site ''u'' = Inr 0"
    "page_source (page stale_anchor_site 0) = Inl WebDriverFault"
    "anchors (page stale_anchor_site 0) = Inr ?els"
    by (simp_all add: stale_anchor_site_def stale_anchor_page_def)
  have h4: "isl (el_text stale_anchor)"
    by (simp add: stale_anchor_def anchor_def)
  have c1: "extract_event_data down_site ''u'' ''GP Paris'' = None"
    using extract_event_data_faults [of down_site "''u''" WebDriverFault "''GP Paris''"] h1
    by blast
  have c2: "\<exists>r. extract_event_data broken_site ''u'' ''GP Paris'' = Some r \<and> decks r = []"
    using extract_event_data_faults [of broken_site "''u''" _ "''GP Paris''" 0
        _ WebDriverFault] h2
    by blast
  have c3: "\<exists>r. extract_event_data stale_anchor_site ''u'' ''GP Paris'' = Some r
          \<and> date r = ''Unknown''
          \<and> decks r = number_from 1 (filter deck_kept (filter (href_contains ''&d='') ?els))"
    using extract_event_data_faults [of stale_anchor_site "''u''" _ "''GP Paris''" 0
        WebDriverFault _ ?els] h3
    by blast
  have c4: "\<not> deck_kept stale_anchor"
    using extract_event_data_faults [of _ _ _ _ _ _ _ _ stale_anchor] h4 by blast
  have ev: "number_from 1 (filter deck_kept (filter (href_contains ''&d='') ?els)) = ?decks"
    by code_simp
  show ?thesis using h1 c1 h2 c2 h3 h4 c4 c3 unfolding ev by blast
qed

text \<open>
  Claim C6. Every record the extractor returns has \<^verbatim>\<open>total_decks\<close> equal to the number of
  its decks, and the deck at index \<open>i\<close> has position \<open>i + 1\<close>: the positions are 1, 2, ...
  without gap or repeat, so a skipped anchor takes no number.
\<close>

theorem deck_positions_dense:
  "extract_event_data s u n = Some r \<Longrightarrow>
     total_decks r = int (length (decks r))
     \<and> (\<forall>i < length (decks r). position (decks r ! i) = int i + 1)"
  using deck_loop_dense [of "[]" 1 1]
  by (auto simp: extract_event_data_def extract_decks_def split: sum.splits)

theorem deck_positions_dense_witness:
  "extract_event_data event_site ''https://www.mtgtop8.com/event?e=1&f=ST'' ''GP Paris''
     = Some \<lparr>event_name = ''GP Paris'', date = ''12/03/23'',
              event_url = ''https://www.mtgtop8.com/event?e=1&f=ST'', total_decks = 2,
              decks =
                [\<lparr>position = 1, deck_name = ''Mono Red'', player = ''Unknown'',
                  deck_url = ''https://www.mtgtop8.com/event?e=1&d=10&f=ST''\<rparr>,
                 \<lparr>position = 2, deck_name = ''Esper Control'', player = ''Unknown'',
                  deck_url = ''https://www.mtgtop8.com/event?e=1&d=12&f=ST''\<rparr>]\<rparr>
   \<and> (\<exists>r. extract_event_data event_site ''https://www.mtgtop8.com/event?e=1&f=ST'' ''GP Paris''
            = Some r
          \<and> total_decks r = int (length (decks r))
          \<and> position (decks r ! 1) = 2)"
proof -
  let ?r = "\<lparr>event_name = ''GP Paris'', date = ''12/03/23'',
              event_url = ''https://www.mtgtop8.com/event?e=1&f=ST'', total_decks = 2,
              decks =
                [\<lparr>position = 1, deck_name = ''Mono Red'', player = ''Unknown'',
                  deck_url = ''https://www.mtgtop8.com/event?e=1&d=10&f=ST''\<rparr>,
                 \<lparr>position = 2, deck_name = ''Esper Control'', player = ''Unknown'',
                  deck_url = ''https://www.mtgtop8.com/event?e=1&d=12&f=ST''\<rparr>]\<rparr>"
  have ev: "extract_event_data event_site ''https://www.mtgtop8.com/event?e=1&f=ST'' ''GP Paris''
      = Some ?r"
    by code_simp
  have d: "total_decks ?r = int (length (decks ?r))
      \<and> (\<forall>i < length (decks ?r). position (decks ?r ! i) = int i + 1)"
    by (rule deck_positions_dense [OF ev])
  then have "position (decks ?r ! 1) = int 1 + 1" by simp
  then have "position (decks ?r ! 1) = 2" by simp
  then show ?thesis using ev d by blast
qed

section \<open>The pagination controller\<close>

lemma py_in_take: "take (length sub) s = sub \<Longrightarrow> py_in sub s"
  by (cases s) auto

lemma py_in_Cons: "py_in (c # sub) s \<Longrightarrow> py_in sub s"
proof (induction s)
  case Nil
  then show ?case by simp
next
  case (Cons x xs)
  show ?case
  proof (cases "take (length (c # sub)) (x # xs) = c # sub")
    case True
    then have "take (length sub) xs = sub" by simp
    then have "py_in sub xs" by (rule py_in_take)
    then show ?thesis by simp
  next
    case False
    then have "py_in (c # sub) xs" using Cons.prems by auto
    then have "py_in sub xs" by (rule Cons.IH)
    then show ?thesis by simp
  qed
qed

lemma href_contains_Cons: "href_contains (c # pat) e \<Longrightarrow> href_contains pat e"
  by (auto simp: href_contains_def split: option.splits dest: py_in_Cons)

lemma first_valid_link_Some:
  "first_valid_link els = Inr (Some l) \<Longrightarrow>
     l \<in> set els
     \<and> (\<exists>t h c. el_text l = Inr t \<and> el_href l = Inr h \<and> el_class l = Inr c
          \<and> length (py_strip t) \<le> 3
          \<and> \<not> py_in ''Nav_PN_no'' (or_empty c)
          \<and> \<not> py_in ''archetype'' (or_empty h))"
proof (induction els)
  case Nil
  then show ?case by simp
next
  case (Cons e els)
  then show ?case
    by (auto simp: Let_def split: sum.splits if_splits)
qed

lemma try_selectors_Some:
  "try_selectors sels found = Inr (Some l) \<Longrightarrow>
     \<exists>sel els. sel \<in> set sels \<and> found = Inr els
       \<and> first_valid_link (filter sel els) = Inr (Some l)"
proof (induction sels)
  case Nil
  then show ?case by simp
next
  case (Cons sel sels)
  then show ?case
    by (fastforce split: sum.splits option.splits)
qed

text \<open>
  Claim C4, as stated, fails: the length test of the second strategy is
  \<^verbatim>\<open>len(link_text) > 3\<close>, and the text selector compares with the numeral of the next
  page whatever its length. On page 99 the link with text \<^verbatim>\<open>100\<close>, three characters
  long, whose address does not contain \<^verbatim>\<open>cp=100\<close>, is accepted and clicked.
\<close>

theorem three_digit_page_link_counterexample:
  "numbered_link_search (99 + 1) (Inr [page100_link]) = Inr (Some page100_link)
   \<and> el_text page100_link = Inr ''100'' \<and> length (py_strip ''100'') = 3
   \<and> \<not> href_contains (''cp='' @ py_str (99 + 1)) page100_link
   \<and> pagination_controller numbered_site 99 0 = (True, 1)"
  by code_simp

text \<open>
  Claim C4, amended. In the second strategy a link is accepted only if one of the
  selectors found it, that is, the normalised string value of its first text node is the
  decimal numeral of the next page's 1-based index (of any number of digits) or its
  \<^verbatim>\<open>href\<close> attribute contains \<^verbatim>\<open>cp=\<close> followed by that numeral; and only if its stripped
  visible text has at most 3 characters, its class does not contain \<^verbatim>\<open>Nav_PN_no\<close> and
  its address does not contain \<^verbatim>\<open>archetype\<close>. So a candidate whose stripped visible text
  is longer than 3 characters is rejected.
\<close>

theorem numbered_link_accepted:
  assumes "numbered_link_search next_page_num found = Inr (Some l)"
  shows "(xpath_normalize_space (dom_text l) = py_str next_page_num
          \<or> href_contains (''cp='' @ py_str next_page_num) l)
         \<and> (\<exists>t h c. el_text l = Inr t \<and> el_href l = Inr h \<and> el_class l = Inr c
              \<and> length (py_strip t) \<le> 3
              \<and> \<not> py_in ''Nav_PN_no'' (or_empty c)
              \<and> \<not> py_in ''archetype'' (or_empty h))"
proof -
  obtain sel els where sel: "sel \<in> set (page_selectors next_page_num)"
    and v: "first_valid_link (filter sel els) = Inr (Some l)"
    using try_selectors_Some assms unfolding numbered_link_search_def by blast
  have l: "l \<in> set (filter sel els)"
    and r: "\<exists>t h c. el_text l = Inr t \<and> el_href l = Inr h \<and> el_class l = Inr c
              \<and> length (py_strip t) \<le> 3
              \<and> \<not> py_in ''Nav_PN_no'' (or_empty c)
              \<and> \<not> py_in ''archetype'' (or_empty h)"
    using first_valid_link_Some [OF v] by blast+
  have "sel l" using l by simp
  then have "xpath_normalize_space (dom_text l) = py_str next_page_num
          \<or> href_contains (''cp='' @ py_str next_page_num) l"
    using sel href_contains_Cons [of "CHR ''&''" "''cp='' @ py_str next_page_num" l]
      href_contains_Cons [of "CHR ''?''" "''cp='' @ py_str next_page_num" l]
    by (auto simp: page_selectors_def)
  then show ?thesis using r by blast
qed

theorem numbered_link_accepted_witness:
  "numbered_link_search 100 (Inr [page100_link]) = Inr (Some page100_link)
   \<and> xpath_normalize_space (dom_text page100_link) = py_str 100
   \<and> (\<exists>t. el_text page100_link = Inr t \<and> length (py_strip t) \<le> 3)"
proof -
  have h: "numbered_link_search 100 (Inr [page100_link]) = Inr (Some page100_link)"
    by code_simp
  have n: "\<not> href_contains (''cp='' @ py_str 100) page100_link"
    by code_simp
  have "(xpath_normalize_space (dom_text page100_link) = py_str 100
          \<or> href_contains (''cp='' @ py_str 100) page100_link)
         \<and> (\<exists>t h c. el_text page100_link = Inr t \<and> el_href page100_link = Inr h
              \<and> el_class page100_link = Inr c
              \<and> length (py_strip t) \<le> 3
              \<and> \<not> py_in ''Nav_PN_no'' (or_empty c)
              \<and> \<not> py_in ''archetype'' (or_empty h))"
    by (rule numbered_link_accepted [OF h])
  then show ?thesis using h n by blast
qed

section \<open>The page loop\<close>

lemma page_loop_count:
  "current_page \<le> 5000 \<Longrightarrow>
   snd (page_loop scrape controller current_page st acc n) \<le> n + nat (5001 - current_page)"
proof (induction scrape controller current_page st acc n rule: page_loop.induct)
  case (1 scrape controller current_page st acc n)
  show ?case
  proof (cases "scrape st")
    case (Inl f)
    then show ?thesis
      using "1.prems" by (simp add: page_loop.simps [of scrape controller current_page])
  next
    case (Inr page_events)
    obtain has_next_page st' where c: "controller current_page st = (has_next_page, st')"
      by (cases "controller current_page st")
    show ?thesis
    proof (cases "has_next_page \<and> \<not> current_page + 1 > 5000")
      case True
      then have "snd (page_loop scrape controller (current_page + 1) st' (acc @ page_events) (Suc n))
                   \<le> Suc n + nat (5001 - (current_page + 1))"
        using "1.IH" [OF Inr c [symmetric]] by simp
      then show ?thesis
        using True Inr c "1.prems"
        by (simp add: page_loop.simps [of scrape controller current_page])
    next
      case False
      then show ?thesis
        using Inr c "1.prems"
        by (auto simp: page_loop.simps [of scrape controller current_page])
    qed
  qed
qed

text \<open>
  A controller that reports a next page every time, on a page without events: the loop
  runs until the page counter passes 5000, which takes exactly 5000 iterations from page 1.
\<close>

lemma page_loop_always_next:
  assumes "scrape st = Inr []" and "\<And>i. controller i st = (True, st)"
  shows "current_page \<le> 5000 \<Longrightarrow> nat (5000 - current_page) = k \<Longrightarrow>
   page_loop scrape controller current_page st acc n
     = (Inr \<lparr>final_page = 5001, final_state = st, collected = acc\<rparr>,
        n + nat (5001 - current_page))"
proof (induction k arbitrary: current_page n)
  case 0
  then have "current_page = 5000" by simp
  then show ?case using assms by (simp add: page_loop.simps [of _ _ 5000])
next
  case (Suc k)
  then have lt: "current_page + 1 \<le> 5000" and k: "nat (5000 - (current_page + 1)) = k"
    by simp_all
  have "page_loop scrape controller (current_page + 1) st acc (Suc n)
      = (Inr \<lparr>final_page = 5001, final_state = st, collected = acc\<rparr>,
          Suc n + nat (5001 - (current_page + 1)))"
    by (rule Suc.IH [OF lt k])
  then show ?case
    using lt assms by (simp add: page_loop.simps [of _ _ current_page] nat_diff_distrib)
qed

lemma circular_site_controller: "pagination_controller circular_site i 0 = (True, 0)"
  by (simp add: pagination_controller_def method1_def find_next_link_def press_next_def
      click_through_def circular_site_def circular_page_def listing_page_def table_of_def
      next_link_home_def anchor_def is_next_anchor_def or_empty_def)

lemma circular_site_scrape: "scrape_page (page circular_site 0) = Inr []"
  by code_simp

lemma circular_site_ceiling:
  "scrape_all_pages circular_site 0
     = (Inr \<lparr>final_page = 5001, final_state = 0, collected = []\<rparr>, 5000)"
  unfolding scrape_all_pages_def
  using page_loop_always_next [of "\<lambda>cur. scrape_page (page circular_site cur)" 0
      "pagination_controller circular_site" 1 4999 "[]" 0]
  by (simp add: circular_site_controller circular_site_scrape)

lemma page_loop_final_page:
  "current_page \<le> 5000 \<Longrightarrow>
   fst (page_loop scrape controller current_page st acc n) = Inr e \<Longrightarrow> final_page e \<le> 5001"
proof (induction scrape controller current_page st acc n rule: page_loop.induct)
  case (1 scrape controller current_page st acc n)
  show ?case
  proof (cases "scrape st")
    case (Inl f)
    then show ?thesis
      using "1.prems" by (simp add: page_loop.simps [of scrape controller current_page])
  next
    case (Inr page_events)
    obtain has_next_page st' where c: "controller current_page st = (has_next_page, st')"
      by (cases "controller current_page st")
    show ?thesis
    proof (cases "has_next_page \<and> \<not> current_page + 1 > 5000")
      case True
      then have "fst (page_loop scrape controller (current_page + 1) st' (acc @ page_events) (Suc n))
                   = Inr e"
        using Inr c "1.prems"
        by (simp add: page_loop.simps [of scrape controller current_page])
      then show ?thesis
        using "1.IH" [OF Inr c [symmetric]] True by simp
    next
      case False
      then show ?thesis
        using Inr c "1.prems"
        by (auto simp: page_loop.simps [of scrape controller current_page] split: if_splits)
    qed
  qed
qed

text \<open>
  A run of \<^verbatim>\<open>scrape_from_url\<close> on the small site: one page, one event kept, its record
  appended; and a run on a site that cannot be reached, which raises.
\<close>

lemma small_site_run:
  "scrape_from_url small_site ''https://www.mtgtop8.com/format?f=ST'' []
     = Inr (1, [\<lparr>event_name = ''MTGO Challenge'', date = ''12/03/23'',
              event_url = ''https://www.mtgtop8.com/event?e=2&f=ST'', total_decks = 2,
              decks =
                [\<lparr>position = 1, deck_name = ''Mono Red'', player = ''Unknown'',
                  deck_url = ''https://www.mtgtop8.com/event?e=1&d=10&f=ST''\<rparr>,
                 \<lparr>position = 2, deck_name = ''Esper Control'', player = ''Unknown'',
                  deck_url = ''https://www.mtgtop8.com/event?e=1&d=12&f=ST''\<rparr>]\<rparr>])
   \<and> scrape_from_url down_site ''https://www.mtgtop8.com/format?f=ST'' []
       = Inl UnboundLocalError"
  by code_simp

text \<open>
  Claim C7. The page loop is a total function of any page scraper and any pagination
  controller, and started as \<^verbatim>\<open>scrape_from_url\<close> starts it (page counter 1) it makes at
  most 5000 iterations, whatever the controller answers; so does the loop on the site
  model. The page counter is tested after its increment, so it is at most 5001 when the
  loop ends.
\<close>

theorem page_loop_bounded:
  "snd (page_loop scrape controller 1 st [] 0) \<le> 5000
   \<and> (\<forall>e. fst (page_loop scrape controller 1 st [] 0) = Inr e \<longrightarrow> final_page e \<le> 5001)
   \<and> snd (scrape_all_pages s start) \<le> 5000"
  using page_loop_count [of 1 scrape controller st "[]" 0]
    page_loop_count [of 1 "\<lambda>cur. scrape_page (page s cur)" "pagination_controller s" start "[]" 0]
    page_loop_final_page [of 1 scrape controller st "[]" 0]
  by (simp add: scrape_all_pages_def)

theorem page_loop_bounded_witness:
  "scrape_all_pages circular_site 0
     = (Inr \<lparr>final_page = 5001, final_state = 0, collected = []\<rparr>, 5000)
   \<and> snd (scrape_all_pages circular_site 0) \<le> 5000
   \<and> final_page \<lparr>final_page = 5001, final_state = 0 :: nat, collected = []\<rparr> \<le> 5001"
proof -
  let ?scrape = "\<lambda>cur. scrape_page (page circular_site cur)"
  let ?e = "\<lparr>final_page = 5001, final_state = 0 :: nat, collected = []\<rparr>"
  have run: "scrape_all_pages circular_site 0 = (Inr ?e, 5000)"
    by (rule circular_site_ceiling)
  then have h: "fst (page_loop ?scrape (pagination_controller circular_site) 1 0 [] 0) = Inr ?e"
    by (simp add: scrape_all_pages_def)
  have b: "snd (scrape_all_pages circular_site 0) \<le> 5000"
    and f: "\<forall>e. fst (page_loop ?scrape (pagination_controller circular_site) 1 0 [] 0) = Inr e
              \<longrightarrow> final_page e \<le> 5001"
    using page_loop_bounded [of ?scrape "pagination_controller circular_site" 0 circular_site 0]
    by blast+
  have "final_page ?e \<le> 5001" using f h by blast
  then show ?thesis using run b by blast
qed

section \<open>The exporter\<close>

lemma chunk_loop_append:
  "0 < i \<Longrightarrow> chunk_loop fmt df i (Some f) = Some (f @ concat (map (csv_row fmt) (drop i df)))"
proof (induction fmt df i "Some f" arbitrary: f rule: chunk_loop.induct)
  case (1 fmt df i)
  show ?case
  proof (cases "i < length df")
    case True
    have w: "to_csv fmt (take chunk_size (drop i df)) (i \<noteq> 0) (i = 0) (Some f)
               = Some (f @ concat (map (csv_row fmt) (take chunk_size (drop i df))))"
      using "1.prems" by (simp add: to_csv_def)
    have "chunk_loop fmt df (i + chunk_size)
            (Some (f @ concat (map (csv_row fmt) (take chunk_size (drop i df)))))
        = Some ((f @ concat (map (csv_row fmt) (take chunk_size (drop i df))))
                @ concat (map (csv_row fmt) (drop (i + chunk_size) df)))"
      using "1.hyps" [OF True w] "1.prems" by simp
    moreover have "drop i df = take chunk_size (drop i df) @ drop (i + chunk_size) df"
      by (metis append_take_drop_id drop_drop add.commute)
    then have "concat (map (csv_row fmt) (drop i df))
        = concat (map (csv_row fmt) (take chunk_size (drop i df)))
          @ concat (map (csv_row fmt) (drop (i + chunk_size) df))"
      by (metis concat_append map_append)
    ultimately show ?thesis
      using True w by (simp add: chunk_loop.simps [of fmt df i])
  next
    case False
    then show ?thesis by (simp add: chunk_loop.simps [of fmt df i])
  qed
qed

lemma chunk_loop_whole:
  assumes "rows \<noteq> []"
  shows "chunk_loop fmt rows 0 file = to_csv fmt rows False True file"
proof -
  have "chunk_loop fmt rows 0 file
      = chunk_loop fmt rows chunk_size
          (Some (csv_header fmt @ concat (map (csv_row fmt) (take chunk_size rows))))"
    using assms by (simp add: chunk_loop.simps [of fmt rows 0] to_csv_def)
  also have "\<dots> = Some ((csv_header fmt @ concat (map (csv_row fmt) (take chunk_size rows)))
                       @ concat (map (csv_row fmt) (drop chunk_size rows)))"
    by (rule chunk_loop_append) (simp add: chunk_size_def)
  also have "\<dots> = Some (csv_header fmt
                       @ concat (map (csv_row fmt) (take chunk_size rows @ drop chunk_size rows)))"
    by (simp only: map_append concat_append append_assoc)
  finally show ?thesis by (simp add: to_csv_def)
qed

lemma flatten_no_decks: "(\<forall>e \<in> set evs. decks e = []) \<Longrightarrow> flatten evs = []"
  by (simp add: flatten_def)

text \<open>
  Claim C8. For every non-empty list of rows, in particular every list longer than the
  threshold of 100000 rows above which \<^verbatim>\<open>save_data\<close> writes in chunks, the chunked writing
  leaves the file with the same bytes as the single write: the header once, then the rows
  in order. So whichever path \<^verbatim>\<open>save_data\<close> takes, the file holds the header followed by
  the rows.
\<close>

theorem chunked_write_same_bytes:
  "(rows \<noteq> [] \<longrightarrow> chunk_loop fmt rows 0 file = to_csv fmt rows False True file)
   \<and> (flatten evs \<noteq> [] \<longrightarrow>
        save_data fmt evs file
          = (Inr (), Some (csv_header fmt @ concat (map (csv_row fmt) (flatten evs)))))"
proof -
  have "flatten evs \<noteq> [] \<Longrightarrow> evs \<noteq> []" by (auto simp: flatten_def)
  then show ?thesis
    using chunk_loop_whole [of "flatten evs" fmt "file"]
    by (auto simp: chunk_loop_whole save_data_def Let_def to_csv_def)
qed

theorem chunked_write_same_bytes_witness:
  "100000 < length (replicate 100001 row_d1)
   \<and> chunk_loop plain_csv (replicate 100001 row_d1) 0 None
       = to_csv plain_csv (replicate 100001 row_d1) False True None
   \<and> flatten [event_e1] = [row_d1]
   \<and> save_data plain_csv [event_e1] None
       = (Inr (), Some (csv_header plain_csv @ csv_row plain_csv row_d1))"
proof -
  have h1: "replicate 100001 row_d1 \<noteq> []" by simp
  have h2: "flatten [event_e1] = [row_d1]"
    by (simp add: flatten_def event_e1_def row_d1_def)
  have c1: "chunk_loop plain_csv (replicate 100001 row_d1) 0 None
       = to_csv plain_csv (replicate 100001 row_d1) False True None"
    using chunked_write_same_bytes [of "replicate 100001 row_d1" plain_csv None] h1 by blast
  have "flatten [event_e1] \<noteq> []" using h2 by simp
  then have "save_data plain_csv [event_e1] None
       = (Inr (), Some (csv_header plain_csv @ concat (map (csv_row plain_csv) (flatten [event_e1]))))"
    using chunked_write_same_bytes [of _ plain_csv None "[event_e1]"] by blast
  then have c2: "save_data plain_csv [event_e1] None
       = (Inr (), Some (csv_header plain_csv @ csv_row plain_csv row_d1))"
    by (simp add: h2)
  show ?thesis using h2 c1 c2 by simp
qed

text \<open>
  Claim C9. When flattening gives no row (there are no event records, or none of them has
  a deck), \<^verbatim>\<open>save_data\<close> leaves the file as it was: no file is written.
\<close>

theorem no_rows_no_file:
  "flatten evs = [] \<Longrightarrow> snd (save_data fmt evs file) = file"
  by (simp add: save_data_def Let_def)

theorem no_rows_no_file_witness:
  "flatten [] = [] \<and> snd (save_data plain_csv [] None) = None
   \<and> flatten [event_without_decks, event_without_decks] = []
   \<and> snd (save_data plain_csv [event_without_decks, event_without_decks] None) = None"
proof -
  have h1: "flatten [] = []" by (simp add: flatten_def)
  have h2: "flatten [event_without_decks, event_without_decks] = []"
    by (simp add: flatten_def event_without_decks_def)
  show ?thesis
    using h1 h2 no_rows_no_file [OF h1, of plain_csv None]
      no_rows_no_file [OF h2, of plain_csv None]
    by blast
qed

text \<open>
  Claim C10. For every non-empty list of event records none of which has a deck,
  \<^verbatim>\<open>save_data\<close> writes no file and does not return normally: the read of the unbound
  variable \<^verbatim>\<open>csv_filename\<close> in the summary raises.
\<close>

theorem save_data_unbound_filename:
  "evs \<noteq> [] \<Longrightarrow> (\<forall>e \<in> set evs. decks e = []) \<Longrightarrow>
     save_data fmt evs file = (Inl UnboundLocalError, file)"
  by (simp add: save_data_def Let_def flatten_no_decks)

theorem save_data_unbound_filename_witness:
  "[event_without_decks] \<noteq> [] \<and> decks event_without_decks = []
   \<and> save_data plain_csv [event_without_decks] None = (Inl UnboundLocalError, None)"
proof -
  have h1: "[event_without_decks] \<noteq> []" by simp
  have d: "decks event_without_decks = []" by (simp add: event_without_decks_def)
  then have h2: "\<forall>e \<in> set [event_without_decks]. decks e = []" by simp
  show ?thesis
    using h1 d save_data_unbound_filename [OF h1 h2, of plain_csv None] by blast
qed

end
